theory Spec2Isabelle
  imports Complex_Main
begin

section \<open>Number model\<close>


datatype npval = Finite real | PosInf | NegInf | NaN


definition np_div :: "real \<Rightarrow> real \<Rightarrow> npval" where
  "np_div a b =
     (if b \<noteq> 0 then Finite (a / b)
      else if 0 < a then PosInf
      else if a < 0 then NegInf
      else NaN)"

fun np_add :: "npval \<Rightarrow> npval \<Rightarrow> npval" where
  "np_add (Finite a) (Finite b) = Finite (a + b)"
| "np_add NaN y = NaN"
| "np_add x NaN = NaN"
| "np_add PosInf NegInf = NaN"
| "np_add NegInf PosInf = NaN"
| "np_add PosInf y = PosInf"
| "np_add NegInf y = NegInf"
| "np_add x PosInf = PosInf"
| "np_add x NegInf = NegInf"

definition np_inf_of_sign :: "real \<Rightarrow> npval" where
  "np_inf_of_sign s = (if 0 < s then PosInf else if s < 0 then NegInf else NaN)"

fun np_mul :: "npval \<Rightarrow> npval \<Rightarrow> npval" where
  "np_mul (Finite a) (Finite b) = Finite (a * b)"
| "np_mul NaN y = NaN"
| "np_mul x NaN = NaN"
| "np_mul (Finite a) PosInf = np_inf_of_sign a"
| "np_mul (Finite a) NegInf = np_inf_of_sign (- a)"
| "np_mul PosInf (Finite b) = np_inf_of_sign b"
| "np_mul NegInf (Finite b) = np_inf_of_sign (- b)"
| "np_mul PosInf PosInf = PosInf"
| "np_mul NegInf NegInf = PosInf"
| "np_mul PosInf NegInf = NegInf"
| "np_mul NegInf PosInf = NegInf"

text \<open>
  \<^verbatim>\<open>x ** p\<close> on an array of doubles with a scalar exponent \<open>p\<close>: a positive base gives
  the real power, a zero base gives \<^verbatim>\<open>inf\<close> for a negative exponent, and a negative base
  gives \<^verbatim>\<open>nan\<close> unless the exponent is a whole number.
\<close>

definition np_power :: "real \<Rightarrow> real \<Rightarrow> npval" where
  "np_power x p =
     (if 0 < x then Finite (x powr p)
      else if x = 0 then (if p < 0 then PosInf else if p = 0 then Finite 1 else Finite 0)
      else if p \<in> \<int> then Finite (x powi \<lfloor>p\<rfloor>)
      else NaN)"

definition np_sqrt :: "real \<Rightarrow> npval" where
  "np_sqrt x = (if x < 0 then NaN else Finite (sqrt x))"

text \<open>Comparison of array elements: every comparison with \<^verbatim>\<open>nan\<close> is false.\<close>

fun np_less :: "npval \<Rightarrow> npval \<Rightarrow> bool" where
  "np_less (Finite a) (Finite b) = (a < b)"
| "np_less NaN y = False"
| "np_less x NaN = False"
| "np_less NegInf NegInf = False"
| "np_less NegInf y = True"
| "np_less x NegInf = False"
| "np_less PosInf y = False"
| "np_less x PosInf = True"

fun np_le :: "npval \<Rightarrow> npval \<Rightarrow> bool" where
  "np_le (Finite a) (Finite b) = (a \<le> b)"
| "np_le NaN y = False"
| "np_le x NaN = False"
| "np_le NegInf y = True"
| "np_le x PosInf = True"
| "np_le PosInf y = False"
| "np_le x NegInf = False"


section \<open>Double arithmetic\<close>

subsection \<open>Rounding to the nearest double\<close>

text \<open>
  A finite double is \<open>m * 2 ^ j\<close> for integers \<open>\<bar>m\<bar> < 2 ^ 53\<close> and
  \<open>- 1074 \<le> j \<le> 971\<close>. A real \<open>x\<close> with \<open>2 ^ L \<le> \<bar>x\<bar> < 2 ^ (L + 1)\<close> lies between
  doubles that are \<open>2 ^ (L - 52)\<close> apart, or \<open>2 ^ (- 1074)\<close> apart below the normal
  range; it is rounded to the nearest of them, and to the one with an even \<open>m\<close> when
  it is half way. A result of magnitude \<open>2 ^ 1024\<close> or more overflows.
\<close>

definition rne :: "real \<Rightarrow> int" where
  "rne y = (let f = \<lfloor>y\<rfloor>; r = y - of_int f
            in if r < 1 / 2 then f else if 1 / 2 < r then f + 1
               else if even f then f else f + 1)"

definition ulp_exp :: "real \<Rightarrow> int" where
  "ulp_exp x = (if x = 0 then - 1074 else max (\<lfloor>log 2 \<bar>x\<bar>\<rfloor> - 52) (- 1074))"

definition round_real :: "real \<Rightarrow> real" where
  "round_real x = of_int (rne (x / 2 powi ulp_exp x)) * 2 powi ulp_exp x"

definition round_double :: "real \<Rightarrow> npval" where
  "round_double x =
     (let y = round_real x
      in if 2 ^ 1024 \<le> \<bar>y\<bar> then (if 0 < x then PosInf else NegInf) else Finite y)"

definition exact :: "real \<Rightarrow> npval" where
  "exact x = Finite x"

text \<open>The reals that rounding can return, and a double: one of them below \<open>2 ^ 1024\<close>.\<close>

definition representable :: "real \<Rightarrow> bool" where
  "representable d \<longleftrightarrow> (\<exists>m j. d = of_int m * 2 powi j \<and> \<bar>m\<bar> \<le> 2 ^ 53 \<and> - 1074 \<le> j)"


subsection \<open>The operations, with a rounding \<open>rd\<close> of their finite results\<close>

fun np_neg :: "npval \<Rightarrow> npval" where
  "np_neg (Finite a) = Finite (- a)"
| "np_neg PosInf = NegInf"
| "np_neg NegInf = PosInf"
| "np_neg NaN = NaN"

fun fl_add :: "(real \<Rightarrow> npval) \<Rightarrow> npval \<Rightarrow> npval \<Rightarrow> npval" where
  "fl_add rd (Finite a) (Finite b) = rd (a + b)"
| "fl_add rd x y = np_add x y"

fun fl_sub :: "(real \<Rightarrow> npval) \<Rightarrow> npval \<Rightarrow> npval \<Rightarrow> npval" where
  "fl_sub rd (Finite a) (Finite b) = rd (a - b)"
| "fl_sub rd x y = np_add x (np_neg y)"

fun fl_mul :: "(real \<Rightarrow> npval) \<Rightarrow> npval \<Rightarrow> npval \<Rightarrow> npval" where
  "fl_mul rd (Finite a) (Finite b) = rd (a * b)"
| "fl_mul rd x y = np_mul x y"

text \<open>Division as numpy does it: a zero divisor gives \<^verbatim>\<open>inf\<close>, \<^verbatim>\<open>-inf\<close> or \<^verbatim>\<open>nan\<close>.\<close>

fun fl_div :: "(real \<Rightarrow> npval) \<Rightarrow> npval \<Rightarrow> npval \<Rightarrow> npval" where
  "fl_div rd (Finite a) (Finite b) = (if b \<noteq> 0 then rd (a / b) else np_inf_of_sign a)"
| "fl_div rd NaN y = NaN"
| "fl_div rd x NaN = NaN"
| "fl_div rd (Finite a) PosInf = Finite 0"
| "fl_div rd (Finite a) NegInf = Finite 0"
| "fl_div rd PosInf (Finite b) = (if b < 0 then NegInf else PosInf)"
| "fl_div rd NegInf (Finite b) = (if b < 0 then PosInf else NegInf)"
| "fl_div rd x y = NaN"

text \<open>
  \<^verbatim>\<open>x ** p\<close> and \<^verbatim>\<open>np.sqrt(x)\<close> on an array. A special base follows the rules of C's
  \<^verbatim>\<open>pow\<close>. The power of a positive base is taken as the rounded real power; the facts
  proved below use only that it lies between the same powers of two as the real one.
\<close>

fun fl_power :: "(real \<Rightarrow> npval) \<Rightarrow> npval \<Rightarrow> real \<Rightarrow> npval" where
  "fl_power rd (Finite x) p = (if 0 < x then rd (x powr p) else np_power x p)"
| "fl_power rd PosInf p = (if p < 0 then Finite 0 else if p = 0 then Finite 1 else PosInf)"
| "fl_power rd NegInf p =
     (if p < 0 then Finite 0 else if p = 0 then Finite 1
      else if p \<in> \<int> \<and> odd \<lfloor>p\<rfloor> then NegInf else PosInf)"
| "fl_power rd NaN p = (if p = 0 then Finite 1 else NaN)"

fun fl_sqrt :: "(real \<Rightarrow> npval) \<Rightarrow> npval \<Rightarrow> npval" where
  "fl_sqrt rd (Finite x) = (if x < 0 then NaN else rd (sqrt x))"
| "fl_sqrt rd PosInf = PosInf"
| "fl_sqrt rd NegInf = NaN"
| "fl_sqrt rd NaN = NaN"




section \<open>Time grids\<close>

text \<open>
  \<^verbatim>\<open>np.linspace(start, stop, num)\<close>: \<open>num\<close> evenly spaced points from \<open>start\<close> to
  \<open>stop\<close>, both included.
\<close>

definition linspace :: "real \<Rightarrow> real \<Rightarrow> nat \<Rightarrow> real list" where
  "linspace start stop num =
     map (\<lambda>i. start + real i * ((stop - start) / real (num - 1))) [0..<num]"


section \<open>Infiltration series\<close>

text \<open>
  Each of the three time-dependent branches leaves two arrays, \<^verbatim>\<open>infiltration_rate\<close>
  and \<^verbatim>\<open>cumulative_infiltration\<close>, aligned with the array \<^verbatim>\<open>time\<close>.
\<close>

record 'a series =
  infiltration_rate :: "'a list"
  cumulative_infiltration :: "'a list"

subsection \<open>Green-Ampt (lines 75 to 84)\<close>

text \<open>
  \<^verbatim>\<open>
  delta_theta = theta_s - theta_i
  F = Ks * time
  infiltration_rate = Ks * (1 + (psi * delta_theta) / F)
  cumulative_infiltration = F
  \<close>
  The array \<open>time\<close> is a parameter here; the branch itself fixes it below.
\<close>

definition green_ampt_calculations ::
    "real list \<Rightarrow> real \<Rightarrow> real \<Rightarrow> real \<Rightarrow> real \<Rightarrow> npval series" where
  "green_ampt_calculations time Ks psi theta_i theta_s =
     (let delta_theta = theta_s - theta_i;
          F = map (\<lambda>t. Ks * t) time
      in \<lparr> infiltration_rate =
             map (\<lambda>f. np_mul (Finite Ks) (np_add (Finite 1) (np_div (psi * delta_theta) f))) F,
           cumulative_infiltration = map Finite F \<rparr>)"

definition green_ampt_branch :: "real \<Rightarrow> real \<Rightarrow> real \<Rightarrow> real \<Rightarrow> npval series" where
  "green_ampt_branch Ks psi theta_i theta_s =
     green_ampt_calculations (linspace 0.1 24 100) Ks psi theta_i theta_s"

subsection \<open>Philip (lines 137 to 141)\<close>

text \<open>
  \<^verbatim>\<open>
  infiltration_rate = 0.5 * S * time**(-0.5) + K
  cumulative_infiltration = S * np.sqrt(time) + K * time
  \<close>
\<close>

definition philip_calculations :: "real list \<Rightarrow> real \<Rightarrow> real \<Rightarrow> npval series" where
  "philip_calculations time S K =
     \<lparr> infiltration_rate =
         map (\<lambda>t. np_add (np_mul (Finite (0.5 * S)) (np_power t (- 0.5))) (Finite K)) time,
       cumulative_infiltration =
         map (\<lambda>t. np_add (np_mul (Finite S) (np_sqrt t)) (Finite (K * t))) time \<rparr>"

definition philip_branch :: "real \<Rightarrow> real \<Rightarrow> npval series" where
  "philip_branch S K = philip_calculations (linspace 0.1 24 100) S K"

subsection \<open>Horton (lines 192 to 200)\<close>

text \<open>
  \<^verbatim>\<open>
  infiltration_rate = fc + (f0 - fc) * np.exp(-k * time)
  cumulative_infiltration = np.zeros_like(time)
  for i in range(1, len(time)):
      dt = time[i] - time[i-1]
      cumulative_infiltration[i] = cumulative_infiltration[i-1] + infiltration_rate[i] * dt
  \<close>
  No operation here can leave the finite numbers, so the arrays hold reals. The loop is
  a recursion over the indices of \<^verbatim>\<open>range(1, len(time))\<close>, each of which is a position
  of all three arrays.
\<close>

fun horton_loop :: "real list \<Rightarrow> real list \<Rightarrow> nat list \<Rightarrow> real list \<Rightarrow> real list" where
  "horton_loop time rate [] cumulative = cumulative"
| "horton_loop time rate (i # is) cumulative =
     (let dt = time ! i - time ! (i - 1)
      in horton_loop time rate is
           (cumulative[i := cumulative ! (i - 1) + rate ! i * dt]))"

definition horton_calculations :: "real list \<Rightarrow> real \<Rightarrow> real \<Rightarrow> real \<Rightarrow> real series" where
  "horton_calculations time f0 fc k =
     (let rate = map (\<lambda>t. fc + (f0 - fc) * exp (- k * t)) time
      in \<lparr> infiltration_rate = rate,
           cumulative_infiltration =
             horton_loop time rate [1..<length time] (replicate (length time) 0) \<rparr>)"

definition horton_branch :: "real \<Rightarrow> real \<Rightarrow> real \<Rightarrow> real series" where
  "horton_branch f0 fc k = horton_calculations (linspace 0 24 100) f0 fc k"

subsection \<open>Green-Ampt and Philip with each operation rounded\<close>

text \<open>
  The same lines as above; \<open>time\<close> is an array of numbers and each arithmetic operation
  rounds with \<open>rd\<close>.
\<close>

definition green_ampt_calculations_fl ::
    "(real \<Rightarrow> npval) \<Rightarrow> npval list \<Rightarrow> real \<Rightarrow> real \<Rightarrow> real \<Rightarrow> real \<Rightarrow> npval series" where
  "green_ampt_calculations_fl rd time Ks psi theta_i theta_s =
     (let delta_theta = fl_sub rd (Finite theta_s) (Finite theta_i);
          F = map (\<lambda>t. fl_mul rd (Finite Ks) t) time
      in \<lparr> infiltration_rate =
             map (\<lambda>f. fl_mul rd (Finite Ks)
                        (fl_add rd (Finite 1) (fl_div rd (fl_mul rd (Finite psi) delta_theta) f))) F,
           cumulative_infiltration = F \<rparr>)"


definition philip_calculations_fl ::
    "(real \<Rightarrow> npval) \<Rightarrow> npval list \<Rightarrow> real \<Rightarrow> real \<Rightarrow> npval series" where
  "philip_calculations_fl rd time S K =
     \<lparr> infiltration_rate =
         map (\<lambda>t. fl_add rd (fl_mul rd (fl_mul rd (Finite 0.5) (Finite S)) (fl_power rd t (- 0.5)))
                    (Finite K)) time,
       cumulative_infiltration =
         map (\<lambda>t. fl_add rd (fl_mul rd (Finite S) (fl_sqrt rd t)) (fl_mul rd (Finite K) t)) time \<rparr>"


section \<open>SCS curve number (lines 247 to 269)\<close>



text \<open>
  The expressions that lines 247 to 249 assign to \<^verbatim>\<open>S\<close> and \<^verbatim>\<open>Ia\<close>, as functions of the
  inputs.
\<close>

definition scs_S :: "(real \<Rightarrow> npval) \<Rightarrow> real \<Rightarrow> npval" where
  "scs_S rd CN =
     fl_div rd (fl_sub rd (fl_div rd (Finite 25400) (Finite CN)) (Finite 254)) (Finite 10)"



section \<open>The fixed grids\<close>

lemma linspace_length [simp]: "length (linspace start stop num) = num"
  by (simp add: linspace_def)

lemma linspace_nth:
  "i < num \<Longrightarrow> linspace start stop num ! i = start + real i * ((stop - start) / real (num - 1))"
  by (simp add: linspace_def)

lemma linspace_ge:
  assumes "start \<le> stop" "t \<in> set (linspace start stop num)"
  shows "start \<le> t"
proof -
  obtain i where "t = start + real i * ((stop - start) / real (num - 1))"
    using assms(2) unfolding linspace_def set_map by blast
  moreover have "0 \<le> real i * ((stop - start) / real (num - 1))"
    using assms(1) by (intro mult_nonneg_nonneg divide_nonneg_nonneg) simp_all
  ultimately show ?thesis by (simp only: le_add_same_cancel1)
qed

lemma linspace_strictly_increasing:
  assumes "start < stop"
  shows "sorted_wrt (<) (linspace start stop num)"
proof (cases "num \<le> 1")
  case True
  then have "num = 0 \<or> num = 1" by auto
  then show ?thesis by (auto simp: linspace_def)
next
  case False
  then have d: "0 < (stop - start) / real (num - 1)" using assms by simp
  have mono: "\<And>i j. i < j \<Longrightarrow>
      start + real i * ((stop - start) / real (num - 1)) <
      start + real j * ((stop - start) / real (num - 1))"
  proof -
    fix i j :: nat assume "i < j"
    then have "real i < real j" by simp
    then have "real i * ((stop - start) / real (num - 1)) <
               real j * ((stop - start) / real (num - 1))"
      using d by (rule mult_strict_right_mono)
    then show "start + real i * ((stop - start) / real (num - 1)) <
      start + real j * ((stop - start) / real (num - 1))" by (simp only: add_less_cancel_left)
  qed
  have "sorted_wrt (\<lambda>i j. start + real i * ((stop - start) / real (num - 1)) <
                           start + real j * ((stop - start) / real (num - 1))) [0..<num]"
    by (rule sorted_wrt_mono_rel [OF _ sorted_wrt_upt]) (rule mono)
  then show ?thesis
    unfolding linspace_def sorted_wrt_map .
qed


section \<open>The Horton integration\<close>

subsection \<open>The loop\<close>

lemma horton_loop_length [simp]:
  "length (horton_loop time rate is cumulative) = length cumulative"
  by (induction "is" arbitrary: cumulative) (simp_all add: Let_def)

lemma horton_loop_append:
  "horton_loop time rate (is @ js) cumulative =
     horton_loop time rate js (horton_loop time rate is cumulative)"
  by (induction "is" arbitrary: cumulative) (simp_all add: Let_def)

lemma horton_loop_untouched:
  "j \<notin> set is \<Longrightarrow> horton_loop time rate is cumulative ! j = cumulative ! j"
  by (induction "is" arbitrary: cumulative) (simp_all add: Let_def)

lemma horton_loop_step:
  assumes "1 \<le> a" "a \<le> i" "i < b" "b \<le> length cumulative"
  shows "horton_loop time rate [a..<b] cumulative ! i =
         horton_loop time rate [a..<b] cumulative ! (i - 1) +
         rate ! i * (time ! i - time ! (i - 1))"
  using assms
proof (induction b)
  case 0
  then show ?case by simp
next
  case (Suc b)
  let ?c = "horton_loop time rate [a..<b] cumulative"
  have ab: "a \<le> b" using Suc.prems by simp
  have unfold: "horton_loop time rate [a..<Suc b] cumulative =
      ?c[b := ?c ! (b - 1) + rate ! b * (time ! b - time ! (b - 1))]"
    using ab by (simp add: horton_loop_append Let_def)
  have len: "b < length ?c" using Suc.prems by simp
  show ?case
  proof (cases "i = b")
    case True
    have "b - 1 \<noteq> b" using Suc.prems True by simp
    then show ?thesis using True len unfold by simp
  next
    case False
    then have ib: "i < b" using Suc.prems by simp
    then have "?c ! i = ?c ! (i - 1) + rate ! i * (time ! i - time ! (i - 1))"
      using Suc by simp
    moreover have "i \<noteq> b" "i - 1 \<noteq> b" using ib by simp_all
    ultimately show ?thesis using unfold by simp
  qed
qed

lemma horton_cumulative_0:
  "time \<noteq> [] \<Longrightarrow> cumulative_infiltration (horton_calculations time f0 fc k) ! 0 = 0"
  by (simp add: horton_calculations_def Let_def horton_loop_untouched)

lemma horton_cumulative_step:
  assumes "1 \<le> i" "i < length time"
  shows "cumulative_infiltration (horton_calculations time f0 fc k) ! i =
         cumulative_infiltration (horton_calculations time f0 fc k) ! (i - 1) +
         infiltration_rate (horton_calculations time f0 fc k) ! i * (time ! i - time ! (i - 1))"
  using horton_loop_step [of 1 i "length time" "replicate (length time) 0" time] assms
  by (simp add: horton_calculations_def Let_def)

lemma horton_rate_nth:
  "i < length time \<Longrightarrow>
   infiltration_rate (horton_calculations time f0 fc k) ! i = fc + (f0 - fc) * exp (- k * time ! i)"
  by (simp add: horton_calculations_def Let_def)

lemma horton_lengths:
  "length (infiltration_rate (horton_calculations time f0 fc k)) = length time"
  "length (cumulative_infiltration (horton_calculations time f0 fc k)) = length time"
  by (simp_all add: horton_calculations_def Let_def)

lemma horton_rate_pos:
  assumes "0 < f0" "0 < fc" "0 < k" "0 \<le> (t::real)"
  shows "0 < fc + (f0 - fc) * exp (- k * t)"
proof -
  have "0 \<le> k * t" using assms by (intro mult_nonneg_nonneg) simp_all
  then have e1: "exp (- k * t) \<le> 1" by simp
  have e0: "0 < exp (- k * t)" by simp
  have "fc + (f0 - fc) * exp (- k * t) = fc * (1 - exp (- k * t)) + f0 * exp (- k * t)"
    by (simp add: algebra_simps)
  moreover have "0 \<le> fc * (1 - exp (- k * t))" using assms e1 by simp
  moreover have "0 < f0 * exp (- k * t)" using assms e0 by simp
  ultimately show ?thesis by linarith
qed


lemma exp_minus_one_bounds: "3678 / 10000 < exp (- 1 :: real) \<and> exp (- 1 :: real) < 368 / 1000"
proof -
  obtain t :: real where t: "\<bar>t\<bar> \<le> \<bar>- 1\<bar>"
    and e: "exp (- 1) = (\<Sum>m<8. (- 1) ^ m / fact m) + exp t / fact 8 * (- 1) ^ 8"
    using Maclaurin_exp_le [of "- 1" 8] by blast
  have s: "(\<Sum>m<8. (- 1 :: real) ^ m / fact m) = 103 / 280"
    by (simp add: eval_nat_numeral)
  have "t \<le> 1" using t by simp
  then have "exp t \<le> exp 1" by simp
  also have "\<dots> \<le> 3" by (rule exp_le)
  finally have u: "exp t \<le> 3" .
  have l: "0 < exp t" by simp
  have f: "fact 8 = (40320 :: real)" by (simp add: eval_nat_numeral)
  have "exp (- 1 :: real) = 103 / 280 + exp t / 40320" using e s f by simp
  then show ?thesis using u l by linarith
qed

lemma exp_minus_two_bounds: "1352 / 10000 < exp (- 2 :: real) \<and> exp (- 2 :: real) < 1355 / 10000"
proof -
  have d: "exp (- 2 :: real) = exp (- 1) * exp (- 1)"
    using exp_add [of "- 1 :: real" "- 1"] by simp
  have lo: "(3678 / 10000) * (3678 / 10000) < exp (- 1 :: real) * exp (- 1)"
    using exp_minus_one_bounds by (intro mult_strict_mono) simp_all
  have hi: "exp (- 1 :: real) * exp (- 1) < (368 / 1000) * (368 / 1000)"
    using exp_minus_one_bounds by (intro mult_strict_mono) simp_all
  show ?thesis using lo hi d by linarith
qed


lemma horton_example:
  "horton_calculations [0, 1, 2] 10 1 1 =
     \<lparr> infiltration_rate = [10, 1 + 9 * exp (- 1), 1 + 9 * exp (- 2)],
       cumulative_infiltration = [0, 1 + 9 * exp (- 1), 1 + 9 * exp (- 1) + (1 + 9 * exp (- 2))] \<rparr>"
proof -
  have r: "[1..<length [0::real, 1, 2]] = [1, 2]" by (simp add: upt_rec)
  show ?thesis
    unfolding horton_calculations_def Let_def r by simp
qed


subsection \<open>C2: the rate and the right-endpoint accumulation\<close>

text \<open>
  C2. At every position \<open>i\<close> of the grid the Horton rate is
  \<open>fc + (f0 - fc) * exp (- k * t[i])\<close>, which is \<open>f0\<close> where \<open>t[i] = 0\<close>; the two
  arrays are as long as the grid; \<open>cumulative[0] = 0\<close>, and for every \<open>i \<ge> 1\<close>,
  \<open>cumulative[i] = cumulative[i-1] + rate[i] * (t[i] - t[i-1])\<close>. This holds for every
  grid and all parameters, so in particular for positive parameters and a strictly
  increasing grid. With \<open>f0 = 10\<close>, \<open>fc = 1\<close>, \<open>k = 1\<close> over \<open>[0, 1, 2]\<close> the rate is
  within \<open>0.01\<close> of \<open>[10, 4.31, 2.22]\<close> and the cumulative of \<open>[0, 4.31, 6.53]\<close>.
\<close>

theorem horton_series:
  "(\<forall>i. i < length time \<longrightarrow>
      infiltration_rate (horton_calculations time f0 fc k) ! i =
        fc + (f0 - fc) * exp (- k * time ! i) \<and>
      (time ! i = 0 \<longrightarrow> infiltration_rate (horton_calculations time f0 fc k) ! i = f0)) \<and>
   length (infiltration_rate (horton_calculations time f0 fc k)) = length time \<and>
   length (cumulative_infiltration (horton_calculations time f0 fc k)) = length time \<and>
   (time \<noteq> [] \<longrightarrow> cumulative_infiltration (horton_calculations time f0 fc k) ! 0 = 0) \<and>
   (\<forall>i. 1 \<le> i \<and> i < length time \<longrightarrow>
      cumulative_infiltration (horton_calculations time f0 fc k) ! i =
        cumulative_infiltration (horton_calculations time f0 fc k) ! (i - 1) +
        infiltration_rate (horton_calculations time f0 fc k) ! i * (time ! i - time ! (i - 1))) \<and>
   list_all2 (\<lambda>x y. \<bar>x - y\<bar> \<le> 0.01)
     (infiltration_rate (horton_calculations [0, 1, 2] 10 1 1)) [10, 4.31, 2.22] \<and>
   list_all2 (\<lambda>x y. \<bar>x - y\<bar> \<le> 0.01)
     (cumulative_infiltration (horton_calculations [0, 1, 2] 10 1 1)) [0, 4.31, 6.53]"
proof (intro conjI allI impI)
  fix i assume "i < length time"
  then show "infiltration_rate (horton_calculations time f0 fc k) ! i =
        fc + (f0 - fc) * exp (- k * time ! i)"
    by (rule horton_rate_nth)
next
  fix i assume "i < length time" "time ! i = 0"
  then show "infiltration_rate (horton_calculations time f0 fc k) ! i = f0"
    by (simp add: horton_rate_nth)
next
  show "length (infiltration_rate (horton_calculations time f0 fc k)) = length time"
    by (rule horton_lengths)
next
  show "length (cumulative_infiltration (horton_calculations time f0 fc k)) = length time"
    by (rule horton_lengths)
next
  assume "time \<noteq> []"
  then show "cumulative_infiltration (horton_calculations time f0 fc k) ! 0 = 0"
    by (rule horton_cumulative_0)
next
  fix i assume "1 \<le> i \<and> i < length time"
  then show "cumulative_infiltration (horton_calculations time f0 fc k) ! i =
        cumulative_infiltration (horton_calculations time f0 fc k) ! (i - 1) +
        infiltration_rate (horton_calculations time f0 fc k) ! i * (time ! i - time ! (i - 1))"
    by (intro horton_cumulative_step) simp_all
next
  show "list_all2 (\<lambda>x y. \<bar>x - y\<bar> \<le> 0.01)
     (infiltration_rate (horton_calculations [0, 1, 2] 10 1 1)) [10, 4.31, 2.22]"
    using exp_minus_one_bounds exp_minus_two_bounds
    by (simp add: horton_example abs_le_iff)
next
  show "list_all2 (\<lambda>x y. \<bar>x - y\<bar> \<le> 0.01)
     (cumulative_infiltration (horton_calculations [0, 1, 2] 10 1 1)) [0, 4.31, 6.53]"
  proof -
    have a: "3678 / 10000 < exp (- 1 :: real)" "exp (- 1 :: real) < 368 / 1000"
      using exp_minus_one_bounds by simp_all
    have b: "1352 / 10000 < exp (- 2 :: real)" "exp (- 2 :: real) < 1355 / 10000"
      using exp_minus_two_bounds by simp_all
    have c1: "\<bar>1 + 9 * exp (- 1 :: real) - 431 / 100\<bar> \<le> 1 / 100"
      using a by linarith
    have c2: "\<bar>1 + 9 * exp (- 1 :: real) + (1 + 9 * exp (- 2)) - 653 / 100\<bar> \<le> 1 / 100"
      using a b by linarith
    show ?thesis using c1 c2 by (simp add: horton_example)
  qed
qed

theorem horton_series_witness:
  "(1::nat) < length [0, 0.5, 2 :: real] \<and> [0, 0.5, 2 :: real] \<noteq> [] \<and>
   [0, 0.5, 2 :: real] ! 0 = 0 \<and>
   infiltration_rate (horton_calculations [0, 0.5, 2] 4 1 3) ! 0 = 4 \<and>
   infiltration_rate (horton_calculations [0, 0.5, 2] 4 1 3) ! 1 = 1 + 3 * exp (- 1.5) \<and>
   cumulative_infiltration (horton_calculations [0, 0.5, 2] 4 1 3) ! 0 = 0 \<and>
   cumulative_infiltration (horton_calculations [0, 0.5, 2] 4 1 3) ! 1 =
     cumulative_infiltration (horton_calculations [0, 0.5, 2] 4 1 3) ! 0 +
     infiltration_rate (horton_calculations [0, 0.5, 2] 4 1 3) ! 1 * (0.5 - 0)"
  using horton_series [of "[0, 0.5, 2]" 4 1 3] by auto

subsection \<open>C6: the cumulative series does not decrease\<close>

text \<open>
  A time grid holds elapsed hours: its points are not negative and strictly increase.
  On such a grid, with positive parameters, the rate at every point is positive, also
  where \<open>f0 < fc\<close>, and every step of the grid is positive, so each pass of the loop
  adds a product that is not negative.
\<close>

lemma horton_cumulative_step_le:
  assumes "0 < f0" "0 < fc" "0 < k" "sorted_wrt (<) time" "\<forall>t\<in>set time. 0 \<le> t"
    "1 \<le> i" "i < length time"
  shows "cumulative_infiltration (horton_calculations time f0 fc k) ! (i - 1) \<le>
         cumulative_infiltration (horton_calculations time f0 fc k) ! i"
proof -
  have "time ! (i - 1) < time ! i"
    using sorted_wrt_nth_less [OF assms(4), of "i - 1" i] assms(6,7) by simp
  then have dt: "0 \<le> time ! i - time ! (i - 1)" by simp
  have "0 \<le> time ! i" using assms(5,7) by simp
  then have "0 < fc + (f0 - fc) * exp (- k * time ! i)"
    using assms(1,2,3) by (intro horton_rate_pos)
  then have "0 \<le> infiltration_rate (horton_calculations time f0 fc k) ! i"
    using assms(7) by (simp add: horton_rate_nth)
  then have "0 \<le> infiltration_rate (horton_calculations time f0 fc k) ! i *
               (time ! i - time ! (i - 1))"
    using dt by (rule mult_nonneg_nonneg)
  then show ?thesis
    using horton_cumulative_step [OF assms(6,7), of f0 fc k] by simp
qed

lemma horton_cumulative_mono:
  assumes "0 < f0" "0 < fc" "0 < k" "sorted_wrt (<) time" "\<forall>t\<in>set time. 0 \<le> t"
    "i \<le> j" "j < length time"
  shows "cumulative_infiltration (horton_calculations time f0 fc k) ! i \<le>
         cumulative_infiltration (horton_calculations time f0 fc k) ! j"
  using assms(6,7)
proof (induction j)
  case 0
  then show ?case by simp
next
  case (Suc j)
  show ?case
  proof (cases "i = Suc j")
    case True
    then show ?thesis by simp
  next
    case False
    then have "i \<le> j" "j < length time" using Suc.prems by simp_all
    then have "cumulative_infiltration (horton_calculations time f0 fc k) ! i \<le>
               cumulative_infiltration (horton_calculations time f0 fc k) ! j"
      by (rule Suc.IH)
    moreover have "cumulative_infiltration (horton_calculations time f0 fc k) ! (Suc j - 1) \<le>
               cumulative_infiltration (horton_calculations time f0 fc k) ! Suc j"
      using assms(1-5) Suc.prems(2) by (intro horton_cumulative_step_le) simp_all
    ultimately show ?thesis by simp
  qed
qed

text \<open>
  The branch's own grid \<^verbatim>\<open>np.linspace(0, 24, 100)\<close> is such a grid, so on it the
  cumulative series never decreases.
\<close>

lemma horton_branch_cumulative_mono:
  assumes "0 < f0" "0 < fc" "0 < k" "i \<le> j" "j < 100"
  shows "cumulative_infiltration (horton_branch f0 fc k) ! i \<le>
         cumulative_infiltration (horton_branch f0 fc k) ! j"
proof -
  have s: "sorted_wrt (<) (linspace 0 24 100)"
    by (rule linspace_strictly_increasing) simp
  have n: "\<forall>t\<in>set (linspace 0 24 100). 0 \<le> t"
  proof
    fix t :: real assume "t \<in> set (linspace 0 24 100)"
    then show "0 \<le> t" by (rule linspace_ge [rotated]) simp
  qed
  have j: "j < length (linspace 0 24 100)"
    using assms(5) by (simp only: linspace_length)
  show ?thesis
    unfolding horton_branch_def
    using assms(1,2,3) s n assms(4) j by (rule horton_cumulative_mono)
qed

text \<open>
  C6. For every \<open>f0 > 0\<close>, \<open>fc > 0\<close>, \<open>k > 0\<close> and every strictly increasing grid of
  times that are not negative, the Horton cumulative series has \<open>cumulative[0] = 0\<close>
  and \<open>cumulative[i] \<ge> cumulative[i-1]\<close> for every index \<open>i \<ge> 1\<close>. Nothing is
  assumed about the order of \<open>f0\<close> and \<open>fc\<close>, so the case \<open>f0 < fc\<close>, where the rate
  grows, is included.
\<close>

theorem horton_cumulative_nondecreasing:
  assumes "0 < f0" and "0 < fc" and "0 < k"
    and "sorted_wrt (<) time" and "\<forall>t\<in>set time. 0 \<le> t"
  shows "(time \<noteq> [] \<longrightarrow>
            cumulative_infiltration (horton_calculations time f0 fc k) ! 0 = 0) \<and>
         (\<forall>i. 1 \<le> i \<and> i < length time \<longrightarrow>
            cumulative_infiltration (horton_calculations time f0 fc k) ! (i - 1) \<le>
            cumulative_infiltration (horton_calculations time f0 fc k) ! i)"
proof (intro conjI allI impI)
  assume "time \<noteq> []"
  then show "cumulative_infiltration (horton_calculations time f0 fc k) ! 0 = 0"
    by (rule horton_cumulative_0)
next
  fix i assume "1 \<le> i \<and> i < length time"
  then show "cumulative_infiltration (horton_calculations time f0 fc k) ! (i - 1) \<le>
            cumulative_infiltration (horton_calculations time f0 fc k) ! i"
    using assms by (intro horton_cumulative_step_le) simp_all
qed

text \<open>The witness takes \<open>f0 = 1 < fc = 2\<close>, the case where the rate grows.\<close>

theorem horton_cumulative_nondecreasing_witness:
  "(0::real) < 1 \<and> (0::real) < 2 \<and> (0::real) < 3 \<and> (1::real) < 2 \<and>
   sorted_wrt (<) [0, 1, 3 :: real] \<and> list_all (\<lambda>t. 0 \<le> t) [0, 1, 3 :: real] \<and>
   [0, 1, 3 :: real] \<noteq> [] \<and> (2::nat) < length [0, 1, 3 :: real] \<and>
   cumulative_infiltration (horton_calculations [0, 1, 3] 1 2 3) ! 0 = 0 \<and>
   cumulative_infiltration (horton_calculations [0, 1, 3] 1 2 3) ! 0 \<le>
     cumulative_infiltration (horton_calculations [0, 1, 3] 1 2 3) ! 1 \<and>
   cumulative_infiltration (horton_calculations [0, 1, 3] 1 2 3) ! 1 \<le>
     cumulative_infiltration (horton_calculations [0, 1, 3] 1 2 3) ! 2"
proof -
  have h: "(0::real) < 1" "(0::real) < 2" "(0::real) < 3"
    "sorted_wrt (<) [0, 1, 3 :: real]" "\<forall>t\<in>set [0, 1, 3 :: real]. 0 \<le> t"
    by simp_all
  note t = horton_cumulative_nondecreasing [OF h]
  from t have "cumulative_infiltration (horton_calculations [0, 1, 3] 1 2 3) ! 0 = 0" by simp
  moreover have "cumulative_infiltration (horton_calculations [0, 1, 3] 1 2 3) ! (1 - 1) \<le>
     cumulative_infiltration (horton_calculations [0, 1, 3] 1 2 3) ! 1"
    by (rule t [THEN conjunct2, rule_format]) simp
  moreover have "cumulative_infiltration (horton_calculations [0, 1, 3] 1 2 3) ! (2 - 1) \<le>
     cumulative_infiltration (horton_calculations [0, 1, 3] 1 2 3) ! 2"
    by (rule t [THEN conjunct2, rule_format]) simp
  ultimately show ?thesis by simp
qed

section \<open>Green-Ampt and Philip\<close>

subsection \<open>Green-Ampt: the elements of the two arrays\<close>

lemma green_ampt_lengths:
  "length (infiltration_rate (green_ampt_calculations time Ks psi theta_i theta_s)) = length time"
  "length (cumulative_infiltration (green_ampt_calculations time Ks psi theta_i theta_s)) = length time"
  by (simp_all add: green_ampt_calculations_def Let_def)

lemma green_ampt_rate_nth:
  assumes "i < length time" "Ks * time ! i \<noteq> 0"
  shows "infiltration_rate (green_ampt_calculations time Ks psi theta_i theta_s) ! i =
         Finite (Ks * (1 + psi * (theta_s - theta_i) / (Ks * time ! i)))"
  using assms by (simp add: green_ampt_calculations_def Let_def np_div_def)

lemma green_ampt_cumulative_nth:
  assumes "i < length time"
  shows "cumulative_infiltration (green_ampt_calculations time Ks psi theta_i theta_s) ! i =
         Finite (Ks * time ! i)"
  using assms by (simp add: green_ampt_calculations_def Let_def)

lemma green_ampt_not_implicit:
  assumes "0 < Ks" "0 < psi" "theta_i < theta_s" "0 < (t::real)"
  shows "Ks * t \<noteq> Ks * t + psi * (theta_s - theta_i) * ln (1 + Ks * t / (psi * (theta_s - theta_i)))"
proof -
  have c: "0 < psi * (theta_s - theta_i)" using assms by simp
  have "0 < Ks * t" using assms by simp
  then have "0 < Ks * t / (psi * (theta_s - theta_i))" using c by simp
  then have "0 < ln (1 + Ks * t / (psi * (theta_s - theta_i)))"
    by (intro ln_gt_zero) simp
  with c have "0 < psi * (theta_s - theta_i) * ln (1 + Ks * t / (psi * (theta_s - theta_i)))"
    by (rule mult_pos_pos)
  then show ?thesis by linarith
qed

lemma green_ampt_rate_decreasing:
  assumes "0 < Ks" "0 < psi" "theta_i < theta_s" "0 < t1" "t1 < (t2::real)"
  shows "Ks * (1 + psi * (theta_s - theta_i) / (Ks * t2)) <
         Ks * (1 + psi * (theta_s - theta_i) / (Ks * t1))"
proof -
  have c: "0 < psi * (theta_s - theta_i)" using assms by simp
  have lt: "Ks * t1 < Ks * t2" using assms by simp
  have p1: "0 < Ks * t1" using assms by simp
  then have p2: "0 < Ks * t2" using lt by linarith
  have "0 < (Ks * t2) * (Ks * t1)" using p2 p1 by (rule mult_pos_pos)
  with lt c have "psi * (theta_s - theta_i) / (Ks * t2) < psi * (theta_s - theta_i) / (Ks * t1)"
    by (rule divide_strict_left_mono)
  then have "1 + psi * (theta_s - theta_i) / (Ks * t2) < 1 + psi * (theta_s - theta_i) / (Ks * t1)"
    by linarith
  then show ?thesis using assms(1) by (rule mult_strict_left_mono)
qed

subsection \<open>Philip: the elements of the two arrays\<close>

lemma philip_lengths:
  "length (infiltration_rate (philip_calculations time S K)) = length time"
  "length (cumulative_infiltration (philip_calculations time S K)) = length time"
  by (simp_all add: philip_calculations_def)

lemma philip_rate_nth:
  assumes "i < length time" "0 < time ! i"
  shows "infiltration_rate (philip_calculations time S K) ! i =
         Finite (0.5 * S * time ! i powr (- 0.5) + K)"
  using assms by (simp add: philip_calculations_def np_power_def)

lemma philip_cumulative_nth:
  assumes "i < length time" "0 \<le> time ! i"
  shows "cumulative_infiltration (philip_calculations time S K) ! i =
         Finite (S * sqrt (time ! i) + K * time ! i)"
  using assms by (simp add: philip_calculations_def np_sqrt_def)

lemma philip_rate_decreasing:
  assumes "0 < S" "0 < t1" "t1 < (t2::real)"
  shows "0.5 * S * t2 powr (- 0.5) + K < 0.5 * S * t1 powr (- 0.5) + K"
proof -
  have "t2 powr (- 0.5) < t1 powr (- 0.5)"
    using assms by (intro powr_less_mono2_neg) simp_all
  then show ?thesis using assms(1) by simp
qed

lemma philip_cumulative_mono:
  assumes "0 < S" "0 < K" "0 \<le> t1" "t1 \<le> (t2::real)"
  shows "S * sqrt t1 + K * t1 \<le> S * sqrt t2 + K * t2"
proof -
  have "sqrt t1 \<le> sqrt t2" using assms by simp
  then have "S * sqrt t1 \<le> S * sqrt t2" using assms(1) by simp
  moreover have "K * t1 \<le> K * t2" using assms by simp
  ultimately show ?thesis by linarith
qed

subsection \<open>C3: Green-Ampt uses the explicit approximation\<close>

text \<open>
  C3. For every \<open>Ks > 0\<close>, \<open>psi > 0\<close>, any \<open>theta_i\<close> and \<open>theta_s\<close>, and every grid
  point \<open>t > 0\<close>, the Green-Ampt cumulative is \<open>Ks * t\<close> and the rate is
  \<open>Ks * (1 + psi * (theta_s - theta_i) / (Ks * t))\<close>. The cumulative is the explicit
  \<open>F = Ks * t\<close> and not a solution of the implicit relation
  \<open>F = Ks * t + psi * delta_theta * ln (1 + F / (psi * delta_theta))\<close>: where
  \<open>theta_s > theta_i\<close> the value \<open>Ks * t\<close> does not satisfy it.
\<close>

theorem green_ampt_explicit:
  assumes "0 < Ks" and "0 < psi" and "i < length time" and "0 < time ! i"
  shows "cumulative_infiltration (green_ampt_calculations time Ks psi theta_i theta_s) ! i =
           Finite (Ks * time ! i) \<and>
         infiltration_rate (green_ampt_calculations time Ks psi theta_i theta_s) ! i =
           Finite (Ks * (1 + psi * (theta_s - theta_i) / (Ks * time ! i))) \<and>
         (theta_i < theta_s \<longrightarrow>
           Ks * time ! i \<noteq>
             Ks * time ! i + psi * (theta_s - theta_i) *
               ln (1 + Ks * time ! i / (psi * (theta_s - theta_i))))"
proof (intro conjI impI)
  show "cumulative_infiltration (green_ampt_calculations time Ks psi theta_i theta_s) ! i =
           Finite (Ks * time ! i)"
    using assms(3) by (rule green_ampt_cumulative_nth)
next
  have "Ks * time ! i \<noteq> 0" using assms(1,4) by simp
  with assms(3)
  show "infiltration_rate (green_ampt_calculations time Ks psi theta_i theta_s) ! i =
           Finite (Ks * (1 + psi * (theta_s - theta_i) / (Ks * time ! i)))"
    by (rule green_ampt_rate_nth)
next
  assume "theta_i < theta_s"
  with assms(1,2)
  show "Ks * time ! i \<noteq>
             Ks * time ! i + psi * (theta_s - theta_i) *
               ln (1 + Ks * time ! i / (psi * (theta_s - theta_i)))"
    using assms(4) by (rule green_ampt_not_implicit)
qed

theorem green_ampt_explicit_witness:
  "(0::real) < 2 \<and> (0::real) < 20 \<and> (1::nat) < length [0.1, 0.5 :: real] \<and>
   (0::real) < [0.1, 0.5] ! 1 \<and> (0.2::real) < 0.5 \<and>
   cumulative_infiltration (green_ampt_calculations [0.1, 0.5] 2 20 0.2 0.5) ! 1 = Finite 1 \<and>
   infiltration_rate (green_ampt_calculations [0.1, 0.5] 2 20 0.2 0.5) ! 1 = Finite 14 \<and>
   (1::real) \<noteq> 1 + 6 * ln (1 + 1 / 6)"
  using green_ampt_explicit [of 2 20 1 "[0.1, 0.5]" "0.2" "0.5"] by simp

subsection \<open>C4: Philip in closed form\<close>

text \<open>
  C4. For every \<open>S > 0\<close>, \<open>K > 0\<close> and every grid point \<open>t > 0\<close>, the Philip rate is
  \<open>0.5 * S * t powr (- 0.5) + K\<close> and the cumulative is \<open>S * t powr 0.5 + K * t\<close>. With
  \<open>S = 1\<close> and \<open>K = 1\<close>, at \<open>t = 1\<close> the rate is exactly \<open>1.5\<close> and the cumulative
  exactly \<open>2\<close>.
\<close>

theorem philip_closed_form:
  "(0 < S \<and> 0 < K \<and> i < length time \<and> 0 < time ! i \<longrightarrow>
      infiltration_rate (philip_calculations time S K) ! i =
        Finite (0.5 * S * time ! i powr (- 0.5) + K) \<and>
      cumulative_infiltration (philip_calculations time S K) ! i =
        Finite (S * time ! i powr 0.5 + K * time ! i)) \<and>
   philip_calculations [1] 1 1 =
     \<lparr> infiltration_rate = [Finite 1.5], cumulative_infiltration = [Finite 2] \<rparr>"
proof (intro conjI impI)
  assume h: "0 < S \<and> 0 < K \<and> i < length time \<and> 0 < time ! i"
  then show "infiltration_rate (philip_calculations time S K) ! i =
        Finite (0.5 * S * time ! i powr (- 0.5) + K)"
    by (intro philip_rate_nth) simp_all
next
  assume h: "0 < S \<and> 0 < K \<and> i < length time \<and> 0 < time ! i"
  then have "time ! i powr 0.5 = sqrt (time ! i)"
    using powr_half_sqrt [of "time ! i"] by simp
  moreover have "cumulative_infiltration (philip_calculations time S K) ! i =
         Finite (S * sqrt (time ! i) + K * time ! i)"
    using h by (intro philip_cumulative_nth) simp_all
  ultimately show "cumulative_infiltration (philip_calculations time S K) ! i =
        Finite (S * time ! i powr 0.5 + K * time ! i)"
    by simp
next
  show "philip_calculations [1] 1 1 =
     \<lparr> infiltration_rate = [Finite 1.5], cumulative_infiltration = [Finite 2] \<rparr>"
    by (simp add: philip_calculations_def np_power_def np_sqrt_def)
qed

theorem philip_closed_form_witness:
  "(0::real) < 2 \<and> (0::real) < 3 \<and> (1::nat) < length [1, 4 :: real] \<and>
   (0::real) < [1, 4] ! 1 \<and>
   infiltration_rate (philip_calculations [1, 4] 2 3) ! 1 = Finite (4 powr (- 0.5) + 3) \<and>
   cumulative_infiltration (philip_calculations [1, 4] 2 3) ! 1 = Finite (2 * 4 powr 0.5 + 12)"
  using philip_closed_form [of 2 3 1 "[1, 4]"] by simp

subsection \<open>C7: the rates strictly decrease in time\<close>

text \<open>
  C7. For Green-Ampt with \<open>Ks > 0\<close>, \<open>psi > 0\<close> and \<open>theta_s > theta_i\<close>, and for Philip
  with \<open>S > 0\<close> and \<open>K > 0\<close>: for every pair of grid points \<open>t1 < t2\<close> with \<open>t1 > 0\<close>,
  the rate at \<open>t1\<close> is greater than the rate at \<open>t2\<close>.
\<close>

theorem rate_strictly_decreasing:
  assumes "0 < Ks" and "0 < psi" and "theta_i < theta_s" and "0 < S" and "0 < K"
    and "i < length time" and "j < length time"
    and "0 < time ! i" and "time ! i < time ! j"
  shows "np_less (infiltration_rate (green_ampt_calculations time Ks psi theta_i theta_s) ! j)
                 (infiltration_rate (green_ampt_calculations time Ks psi theta_i theta_s) ! i) \<and>
         np_less (infiltration_rate (philip_calculations time S K) ! j)
                 (infiltration_rate (philip_calculations time S K) ! i)"
proof -
  have tj: "0 < time ! j" using assms(8,9) by linarith
  have gi: "infiltration_rate (green_ampt_calculations time Ks psi theta_i theta_s) ! i =
      Finite (Ks * (1 + psi * (theta_s - theta_i) / (Ks * time ! i)))"
    using assms(1,6,8) by (intro green_ampt_rate_nth) simp_all
  have gj: "infiltration_rate (green_ampt_calculations time Ks psi theta_i theta_s) ! j =
      Finite (Ks * (1 + psi * (theta_s - theta_i) / (Ks * time ! j)))"
    using assms(1,7) tj by (intro green_ampt_rate_nth) simp_all
  have g: "Ks * (1 + psi * (theta_s - theta_i) / (Ks * time ! j)) <
           Ks * (1 + psi * (theta_s - theta_i) / (Ks * time ! i))"
    using assms(1,2,3,8,9) by (rule green_ampt_rate_decreasing)
  have p: "0.5 * S * time ! j powr (- 0.5) + K < 0.5 * S * time ! i powr (- 0.5) + K"
    using assms(4,8,9) by (rule philip_rate_decreasing)
  show ?thesis
    using g p assms(6,7,8) tj
    by (simp only: gi gj philip_rate_nth np_less.simps simp_thms)
qed

theorem rate_strictly_decreasing_witness:
  "(0::real) < 2 \<and> (0::real) < 20 \<and> (0.2::real) < 0.5 \<and> (0::real) < 1 \<and> (0::real) < 3 \<and>
   (0::nat) < length [1, 4 :: real] \<and> (1::nat) < length [1, 4 :: real] \<and>
   (0::real) < [1, 4] ! 0 \<and> [1, 4 :: real] ! 0 < [1, 4] ! 1 \<and>
   np_less (infiltration_rate (green_ampt_calculations [1, 4] 2 20 0.2 0.5) ! 1)
           (infiltration_rate (green_ampt_calculations [1, 4] 2 20 0.2 0.5) ! 0) \<and>
   np_less (infiltration_rate (philip_calculations [1, 4] 1 3) ! 1)
           (infiltration_rate (philip_calculations [1, 4] 1 3) ! 0)"
proof -
  have h: "(0::real) < 2" "(0::real) < 20" "(0.2::real) < 0.5" "(0::real) < 1" "(0::real) < 3"
    "(0::nat) < length [1, 4 :: real]" "(1::nat) < length [1, 4 :: real]"
    "(0::real) < [1, 4] ! 0" "[1, 4 :: real] ! 0 < [1, 4] ! 1"
    by simp_all
  show ?thesis using rate_strictly_decreasing [OF h] h by simp
qed

subsection \<open>C8: every cumulative series is non-decreasing; a Green-Ampt rate can be negative\<close>

text \<open>
  On the fixed grid, with \<open>Ks = 0.1\<close>, \<open>psi = 50\<close>, \<open>theta_i = 0.5\<close> and
  \<open>theta_s = 0.3\<close>, all of them slider values, the rate at the first grid point
  \<open>t = 0.1\<close> is \<open>0.1 * (1 + 50 * (- 0.2) / 0.01) = - 99.9\<close>.
\<close>

lemma green_ampt_negative_rate:
  "infiltration_rate (green_ampt_branch 0.1 50 0.5 0.3) ! 0 = Finite (- 99.9)"
proof -
  have "infiltration_rate (green_ampt_branch 0.1 50 0.5 0.3) ! 0 =
      Finite (0.1 * (1 + 50 * (0.3 - 0.5) / (0.1 * linspace 0.1 24 100 ! 0)))"
    unfolding green_ampt_branch_def
    by (rule green_ampt_rate_nth) (simp_all add: linspace_nth)
  then show ?thesis by (simp add: linspace_nth)
qed

text \<open>
  C8. With positive parameters and a strictly increasing grid of times that are not
  negative, the cumulative series of Green-Ampt, of Philip and of Horton are
  non-decreasing across the grid: the value at position \<open>i\<close> is at most the value at any
  later position \<open>j\<close>. For Green-Ampt this needs nothing of \<open>psi\<close>, \<open>theta_i\<close> and
  \<open>theta_s\<close>. The Green-Ampt rate can be negative: there is an input with
  \<open>theta_i > theta_s\<close> and a point of the fixed grid where the rate is below zero.
\<close>

theorem cumulative_nondecreasing:
  assumes "0 < Ks" and "0 < S" and "0 < K" and "0 < f0" and "0 < fc" and "0 < k"
    and "sorted_wrt (<) time" and "\<forall>t\<in>set time. 0 \<le> t"
    and "i \<le> j" and "j < length time"
  shows "np_le (cumulative_infiltration (green_ampt_calculations time Ks psi theta_i theta_s) ! i)
               (cumulative_infiltration (green_ampt_calculations time Ks psi theta_i theta_s) ! j) \<and>
         np_le (cumulative_infiltration (philip_calculations time S K) ! i)
               (cumulative_infiltration (philip_calculations time S K) ! j) \<and>
         cumulative_infiltration (horton_calculations time f0 fc k) ! i \<le>
           cumulative_infiltration (horton_calculations time f0 fc k) ! j \<and>
         (\<exists>Ks' psi' theta_i' theta_s' n.
            0 < Ks' \<and> 0 < psi' \<and> theta_s' < theta_i' \<and> n < length (linspace 0.1 24 100) \<and>
            np_less (infiltration_rate (green_ampt_branch Ks' psi' theta_i' theta_s') ! n)
                    (Finite 0))"
proof -
  have i: "i < length time" using assms(9,10) by simp
  have tij: "time ! i \<le> time ! j"
  proof (cases "i = j")
    case True
    then show ?thesis by simp
  next
    case False
    then have "i < j" using assms(9) by simp
    then have "time ! i < time ! j" using assms(10) by (rule sorted_wrt_nth_less [OF assms(7)])
    then show ?thesis by simp
  qed
  have ti: "0 \<le> time ! i" using assms(8) i by simp
  then have tj: "0 \<le> time ! j" using tij by linarith
  have g: "Ks * time ! i \<le> Ks * time ! j" using assms(1) tij by simp
  have p: "S * sqrt (time ! i) + K * time ! i \<le> S * sqrt (time ! j) + K * time ! j"
    using assms(2,3) ti tij by (rule philip_cumulative_mono)
  have h: "cumulative_infiltration (horton_calculations time f0 fc k) ! i \<le>
           cumulative_infiltration (horton_calculations time f0 fc k) ! j"
    using assms(4-10) by (rule horton_cumulative_mono)
  have "np_less (infiltration_rate (green_ampt_branch 0.1 50 0.5 0.3) ! 0) (Finite 0)"
    by (simp only: green_ampt_negative_rate np_less.simps)
  then have "(0::real) < 0.1 \<and> (0::real) < 50 \<and> (0.3::real) < 0.5 \<and>
      0 < length (linspace 0.1 24 100) \<and>
      np_less (infiltration_rate (green_ampt_branch 0.1 50 0.5 0.3) ! 0) (Finite 0)"
    by simp
  then have n: "\<exists>Ks' psi' theta_i' theta_s' n.
            0 < Ks' \<and> 0 < psi' \<and> theta_s' < theta_i' \<and> n < length (linspace 0.1 24 100) \<and>
            np_less (infiltration_rate (green_ampt_branch Ks' psi' theta_i' theta_s') ! n)
                    (Finite 0)"
    by blast
  show ?thesis
    using g p h n i assms(10) ti tj
    by (simp only: green_ampt_cumulative_nth philip_cumulative_nth np_le.simps simp_thms)
qed

theorem cumulative_nondecreasing_witness:
  "(0::real) < 2 \<and> (0::real) < 1 \<and> (0::real) < 3 \<and> (0::real) < 10 \<and> (0::real) < 1 \<and>
   (0::real) < 1 \<and> sorted_wrt (<) [0, 1, 4 :: real] \<and> list_all (\<lambda>t. 0 \<le> t) [0, 1, 4 :: real] \<and>
   (1::nat) \<le> 2 \<and> (2::nat) < length [0, 1, 4 :: real] \<and>
   np_le (cumulative_infiltration (green_ampt_calculations [0, 1, 4] 2 20 0.5 0.3) ! 1)
         (cumulative_infiltration (green_ampt_calculations [0, 1, 4] 2 20 0.5 0.3) ! 2) \<and>
   np_le (cumulative_infiltration (philip_calculations [0, 1, 4] 1 3) ! 1)
         (cumulative_infiltration (philip_calculations [0, 1, 4] 1 3) ! 2) \<and>
   cumulative_infiltration (horton_calculations [0, 1, 4] 10 1 1) ! 1 \<le>
     cumulative_infiltration (horton_calculations [0, 1, 4] 10 1 1) ! 2"
proof -
  have h: "(0::real) < 2" "(0::real) < 1" "(0::real) < 3" "(0::real) < 10" "(0::real) < 1"
    "(0::real) < 1" "sorted_wrt (<) [0, 1, 4 :: real]" "\<forall>t\<in>set [0, 1, 4 :: real]. 0 \<le> t"
    "(1::nat) \<le> 2" "(2::nat) < length [0, 1, 4 :: real]"
    by simp_all
  show ?thesis
    using cumulative_nondecreasing [OF h, of 20 "0.5" "0.3"] h by simp
qed

section \<open>Rounding to the nearest double\<close>

text \<open>
  Rounding keeps the sign, leaves a double unchanged, and never crosses a number of the
  form \<open>m * 2 ^ j\<close> with \<open>\<bar>m\<bar> \<le> 2 ^ 53\<close>: a result between two doubles rounds to a double
  between them.
\<close>

lemma rne_of_int [simp]: "rne (of_int n) = n"
  by (simp add: rne_def)

lemma rne_floor_le: "\<lfloor>y\<rfloor> \<le> rne y"
  by (simp add: rne_def Let_def)

lemma rne_le_floor_Suc: "rne y \<le> \<lfloor>y\<rfloor> + 1"
  by (simp add: rne_def Let_def)

lemma rne_ge:
  assumes "of_int n \<le> y"
  shows "n \<le> rne y"
proof -
  have "n \<le> \<lfloor>y\<rfloor>" using assms by (simp add: le_floor_iff)
  then show ?thesis using rne_floor_le [of y] by linarith
qed

lemma rne_le:
  assumes "y \<le> of_int n"
  shows "rne y \<le> n"
proof (cases "y = of_int n")
  case True
  then show ?thesis by simp
next
  case False
  then have "y < of_int n" using assms by simp
  then have "\<lfloor>y\<rfloor> < n" by (simp add: floor_less_iff)
  then show ?thesis using rne_le_floor_Suc [of y] by linarith
qed

lemma rne_minus: "rne (- y) = - rne y"
proof (cases "y = of_int \<lfloor>y\<rfloor>")
  case True
  then obtain n where "y = of_int n" ..
  then show ?thesis by (simp flip: of_int_minus)
next
  case False
  then have f: "\<lfloor>- y\<rfloor> = - \<lfloor>y\<rfloor> - 1"
    by (simp add: floor_minus ceiling_altdef)
  define r where "r = y - of_int \<lfloor>y\<rfloor>"
  have r': "- y - of_int (- \<lfloor>y\<rfloor> - 1) = 1 - r" by (simp add: r_def)
  have e: "even (- \<lfloor>y\<rfloor> - 1) \<longleftrightarrow> odd \<lfloor>y\<rfloor>" by simp
  show ?thesis
    unfolding rne_def Let_def f r' e r_def [symmetric]
    by (cases "r < 1 / 2"; cases "1 / 2 < r"; cases "even \<lfloor>y\<rfloor>") simp_all
qed


lemma two_powr_int: "(2::real) powr of_int k = 2 powi k"
  by (subst powr_real_of_int') simp_all

lemma floor_log2_bounds:
  assumes "x \<noteq> 0"
  shows "2 powi \<lfloor>log 2 \<bar>x\<bar>\<rfloor> \<le> \<bar>x\<bar>" and "\<bar>x\<bar> < 2 powi (\<lfloor>log 2 \<bar>x\<bar>\<rfloor> + 1)"
proof -
  have p: "0 < \<bar>x\<bar>" using assms by simp
  have b: "2 powr of_int \<lfloor>log 2 \<bar>x\<bar>\<rfloor> \<le> \<bar>x\<bar> \<and> \<bar>x\<bar> < 2 powr (of_int \<lfloor>log 2 \<bar>x\<bar>\<rfloor> + 1)"
    using floor_log_eq_powr_iff [OF p, of 2 "\<lfloor>log 2 \<bar>x\<bar>\<rfloor>"] by simp
  have "of_int \<lfloor>log 2 \<bar>x\<bar>\<rfloor> + 1 = (of_int (\<lfloor>log 2 \<bar>x\<bar>\<rfloor> + 1) :: real)" by simp
  then have "(2::real) powr (of_int \<lfloor>log 2 \<bar>x\<bar>\<rfloor> + 1) = 2 powi (\<lfloor>log 2 \<bar>x\<bar>\<rfloor> + 1)"
    by (simp only: two_powr_int)
  then show "2 powi \<lfloor>log 2 \<bar>x\<bar>\<rfloor> \<le> \<bar>x\<bar>" and "\<bar>x\<bar> < 2 powi (\<lfloor>log 2 \<bar>x\<bar>\<rfloor> + 1)"
    using b by (simp_all only: two_powr_int)
qed


lemma ulp_exp_minus [simp]: "ulp_exp (- x) = ulp_exp x"
  by (simp add: ulp_exp_def)


lemma ulp_exp_lower:
  assumes "- 1074 < ulp_exp x"
  shows "2 powi (ulp_exp x + 52) \<le> \<bar>x\<bar>"
proof -
  have n: "x \<noteq> 0" using assms by (auto simp: ulp_exp_def)
  then have e: "ulp_exp x = \<lfloor>log 2 \<bar>x\<bar>\<rfloor> - 52"
    using assms by (simp add: ulp_exp_def max_def split: if_splits)
  show ?thesis using floor_log2_bounds(1) [OF n] e by simp
qed


lemma rne_0 [simp]: "rne 0 = 0"
  using rne_of_int [of 0] by simp

lemma round_real_0 [simp]: "round_real 0 = 0"
  by (simp add: round_real_def)

lemma round_real_minus: "round_real (- x) = - round_real x"
  by (simp add: round_real_def rne_minus)

lemma round_real_nonneg: "0 \<le> x \<Longrightarrow> 0 \<le> round_real x"
proof -
  assume "0 \<le> x"
  then have "of_int 0 \<le> x / 2 powi ulp_exp x" by simp
  then have "0 \<le> rne (x / 2 powi ulp_exp x)" by (rule rne_ge)
  then show ?thesis by (simp add: round_real_def)
qed


lemma round_real_mult_ge:
  assumes "of_int n * 2 powi ulp_exp x \<le> x"
  shows "of_int n * 2 powi ulp_exp x \<le> round_real x"
proof -
  have "of_int n \<le> x / 2 powi ulp_exp x"
    using assms by (simp add: pos_le_divide_eq)
  then have "n \<le> rne (x / 2 powi ulp_exp x)" by (rule rne_ge)
  then have "(of_int n :: real) \<le> of_int (rne (x / 2 powi ulp_exp x))" by simp
  then show ?thesis unfolding round_real_def
    by (intro mult_right_mono) simp_all
qed

lemma round_real_mult_le:
  assumes "x \<le> of_int n * 2 powi ulp_exp x"
  shows "round_real x \<le> of_int n * 2 powi ulp_exp x"
proof -
  have "x / 2 powi ulp_exp x \<le> of_int n"
    using assms by (simp add: pos_divide_le_eq)
  then have "rne (x / 2 powi ulp_exp x) \<le> n" by (rule rne_le)
  then have "(of_int (rne (x / 2 powi ulp_exp x)) :: real) \<le> of_int n" by simp
  then show ?thesis unfolding round_real_def
    by (intro mult_right_mono) simp_all
qed

lemma rescale_multiple:
  assumes "e \<le> j"
  shows "of_int m * (2::real) powi j = of_int (m * 2 ^ nat (j - e)) * 2 powi e"
proof -
  have "(2::real) powi j = 2 powi (j - e) * 2 powi e"
    by (simp flip: power_int_add)
  also have "(2::real) powi (j - e) = 2 ^ nat (j - e)"
    using assms by (simp add: power_int_nonneg_exp)
  finally show ?thesis by simp
qed

lemma two_powi_52: "(2::real) powi (e + 52) = of_int (2 ^ 52) * 2 powi e"
  by (simp add: power_int_add)

lemma representable_le_powi:
  assumes "(d::real) = of_int m * 2 powi j" "\<bar>m\<bar> \<le> 2 ^ 53"
  shows "d \<le> 2 powi (j + 53)"
proof -
  have "m \<le> 2 ^ 53" using assms(2) by linarith
  then have "(of_int m :: real) \<le> of_int (2 ^ 53)" by (simp only: of_int_le_iff)
  then have "of_int m * (2::real) powi j \<le> of_int (2 ^ 53) * 2 powi j"
    by (intro mult_right_mono) simp_all
  then show ?thesis using assms(1) by (simp add: power_int_add)
qed

lemma round_real_lower_pos:
  assumes "representable d" "0 < d" "d \<le> x"
  shows "d \<le> round_real x"
proof -
  obtain m j where d: "d = of_int m * 2 powi j" and m: "\<bar>m\<bar> \<le> 2 ^ 53" and j: "- 1074 \<le> j"
    using assms(1) unfolding representable_def by blast
  have xpos: "0 < x" using assms by linarith
  show ?thesis
  proof (cases "ulp_exp x \<le> j")
    case True
    have "d = of_int (m * 2 ^ nat (j - ulp_exp x)) * 2 powi ulp_exp x"
      unfolding d using True by (rule rescale_multiple)
    then show ?thesis using round_real_mult_ge [of "m * 2 ^ nat (j - ulp_exp x)" x] assms(3) by simp
  next
    case False
    then have e: "- 1074 < ulp_exp x" "j + 53 \<le> ulp_exp x + 52" using j by simp_all
    have "2 powi (ulp_exp x + 52) \<le> x" using ulp_exp_lower [OF e(1)] xpos by simp
    then have "2 powi (ulp_exp x + 52) \<le> round_real x"
      unfolding two_powi_52 by (rule round_real_mult_ge)
    moreover have "d \<le> 2 powi (j + 53)" using d m by (rule representable_le_powi)
    moreover have "(2::real) powi (j + 53) \<le> 2 powi (ulp_exp x + 52)"
      using e(2) by (intro power_int_increasing) simp_all
    ultimately show ?thesis by linarith
  qed
qed

lemma round_real_upper_pos:
  assumes "representable d" "0 < x" "x \<le> d"
  shows "round_real x \<le> d"
proof -
  obtain m j where d: "d = of_int m * 2 powi j" and m: "\<bar>m\<bar> \<le> 2 ^ 53" and j: "- 1074 \<le> j"
    using assms(1) unfolding representable_def by blast
  show ?thesis
  proof (cases "ulp_exp x \<le> j")
    case True
    have "d = of_int (m * 2 ^ nat (j - ulp_exp x)) * 2 powi ulp_exp x"
      unfolding d using True by (rule rescale_multiple)
    then show ?thesis using round_real_mult_le [of x "m * 2 ^ nat (j - ulp_exp x)"] assms(3) by simp
  next
    case False
    then have e: "- 1074 < ulp_exp x" "j + 53 \<le> ulp_exp x + 52" using j by simp_all
    have l: "2 powi (ulp_exp x + 52) \<le> x" using ulp_exp_lower [OF e(1)] assms(2) by simp
    have "d \<le> 2 powi (j + 53)" using d m by (rule representable_le_powi)
    moreover have "(2::real) powi (j + 53) \<le> 2 powi (ulp_exp x + 52)"
      using e(2) by (intro power_int_increasing) simp_all
    ultimately have "x \<le> 2 powi (ulp_exp x + 52)" using assms(3) by linarith
    then have "round_real x \<le> 2 powi (ulp_exp x + 52)"
      unfolding two_powi_52 by (rule round_real_mult_le)
    then show ?thesis using l assms(3) by linarith
  qed
qed

lemma representable_minus: "representable d \<Longrightarrow> representable (- d)"
proof -
  assume "representable d"
  then obtain m j where "d = of_int m * 2 powi j" "\<bar>m\<bar> \<le> 2 ^ 53" "- 1074 \<le> j"
    unfolding representable_def by blast
  then have "- d = of_int (- m) * 2 powi j \<and> \<bar>- m\<bar> \<le> 2 ^ 53 \<and> - 1074 \<le> j" by simp
  then show ?thesis unfolding representable_def by blast
qed

lemma round_real_lower:
  assumes "representable d" "d \<le> x"
  shows "d \<le> round_real x"
proof -
  consider "0 < d" | "d \<le> 0" "0 \<le> x" | "x < 0" by linarith
  then show ?thesis
  proof cases
    case 1
    then show ?thesis using assms by (intro round_real_lower_pos)
  next
    case 2
    then show ?thesis using round_real_nonneg [of x] by linarith
  next
    case 3
    have "round_real (- x) \<le> - d"
      using representable_minus [OF assms(1)] 3 assms(2) by (intro round_real_upper_pos) simp_all
    then show ?thesis by (simp add: round_real_minus)
  qed
qed





subsection \<open>Doubles\<close>

lemma representable_of_int: "\<bar>n\<bar> \<le> 2 ^ 53 \<Longrightarrow> representable (of_int n)"
proof -
  assume "\<bar>n\<bar> \<le> 2 ^ 53"
  then have "(of_int n :: real) = of_int n * 2 powi 0 \<and> \<bar>n\<bar> \<le> 2 ^ 53 \<and> - 1074 \<le> (0::int)" by simp
  then show ?thesis unfolding representable_def by blast
qed


lemma representable_powi: "- 1074 \<le> k \<Longrightarrow> representable (2 powi k)"
proof -
  assume "- 1074 \<le> k"
  then have "(2::real) powi k = of_int 1 * 2 powi k \<and> \<bar>1::int\<bar> \<le> 2 ^ 53 \<and> - 1074 \<le> k" by simp
  then show ?thesis unfolding representable_def by blast
qed

lemma representable_0 [simp]: "representable 0"
  using representable_of_int [of 0] by simp


lemma round_double_not_NaN [simp]: "round_double x \<noteq> NaN"
  by (simp add: round_double_def Let_def)

lemma round_double_0 [simp]: "round_double 0 = Finite 0"
  by (simp add: round_double_def)





lemma round_double_overflow:
  assumes "2 ^ 1024 \<le> x"
  shows "round_double x = PosInf"
proof -
  have "representable (2 powi 1024)" by (rule representable_powi) simp
  then have "2 powi 1024 \<le> round_real x" using assms by (intro round_real_lower) simp_all
  then have "2 ^ 1024 \<le> \<bar>round_real x\<bar>" by simp
  moreover have "0 < x" using assms by (rule less_le_trans [rotated]) simp
  ultimately show ?thesis by (simp add: round_double_def)
qed














section \<open>The SCS calculation\<close>

subsection \<open>With exact operations\<close>




subsection \<open>In double arithmetic\<close>














lemma round_double_powi_overflow:
  assumes "2 ^ 1024 \<le> x"
  shows "round_double x = PosInf"
  using assms by (rule round_double_overflow)

lemma scs_S_double_tiny: "scs_S round_double (2 powi (- 1030)) = PosInf"
proof -
  have "(2::real) ^ 1024 \<le> 25400 / 2 powi (- 1030)"
    by (simp add: power_int_minus)
  then have "round_double (25400 / 2 powi (- 1030)) = PosInf" by (rule round_double_overflow)
  then show ?thesis by (simp add: scs_S_def)
qed










subsection \<open>The claims on the SCS branch\<close>











section \<open>Green-Ampt and Philip in double arithmetic\<close>












text \<open>With the rounding that keeps every real, the rounded arrays are the real ones.\<close>

lemma fl_add_exact: "fl_add exact x y = np_add x y"
  by (cases x; cases y; simp add: exact_def)

lemma fl_mul_exact: "fl_mul exact x y = np_mul x y"
  by (cases x; cases y; simp add: exact_def)

lemma fl_div_exact: "fl_div exact (Finite a) (Finite b) = np_div a b"
  by (simp add: exact_def np_div_def np_inf_of_sign_def)

lemma fl_power_exact: "fl_power exact (Finite t) p = np_power t p"
  by (simp add: exact_def np_power_def)

lemma fl_sqrt_exact: "fl_sqrt exact (Finite t) = np_sqrt t"
  by (simp add: exact_def np_sqrt_def)

lemma green_ampt_calculations_fl_exact:
  "green_ampt_calculations_fl exact (map Finite time) Ks psi theta_i theta_s =
     green_ampt_calculations time Ks psi theta_i theta_s"
  by (simp only: green_ampt_calculations_fl_def green_ampt_calculations_def Let_def
      fl_mul_exact fl_add_exact fl_sub.simps exact_def np_mul.simps fl_div_exact map_map
      comp_def)

lemma philip_calculations_fl_exact:
  "philip_calculations_fl exact (map Finite time) S K = philip_calculations time S K"
  by (simp only: philip_calculations_fl_def philip_calculations_def fl_mul_exact
      fl_add_exact np_mul.simps fl_power_exact fl_sqrt_exact map_map comp_def)






end
